theory Spec2Isabelle
  imports Main "HOL-Library.AList"
begin

section \<open>EventBus: the dispatcher of the shipped bundle (dist/connect.js)\<close>

text \<open>
  The bundle keeps \<^verbatim>\<open>const handlers = new Map()\<close>, from an event name to a
  \<^verbatim>\<open>Set\<close> of handler functions. A JavaScript \<^verbatim>\<open>Set\<close> iterates in
  insertion order and holds each function object once, so it is a list without
  repetition; \<^verbatim>\<open>add\<close> of a member is a no-op, \<^verbatim>\<open>delete\<close> removes it.

  A function object is compared by identity. Two kinds reach the map: a callback handed
  in by the caller (\<open>Callback c\<close>, \<open>c\<close> its identity) and the closure that
  \<^verbatim>\<open>once\<close> allocates (\<open>Wrapper w name c\<close>: the \<open>w\<close>-th closure, with its
  captured \<^verbatim>\<open>eventName\<close> and \<^verbatim>\<open>handler\<close>). \<^verbatim>\<open>once\<close> returns
  nothing, so a caller never holds a wrapper.

  What a callback of the caller does is an input of the bus: \<open>callback_throws c p\<close>
  says whether callback \<open>c\<close> throws when called with payload \<open>p\<close>. Callbacks are taken
  not to call back into the bus while an \<^verbatim>\<open>emit\<close> is running. \<open>invoked\<close> records
  every call made to a registered function, \<open>reported\<close> every \<^verbatim>\<open>console.error\<close>
  of \<^verbatim>\<open>emit\<close>.
\<close>

datatype listener = Callback nat | Wrapper nat string nat

record 'p bus =
  handlers :: "string \<rightharpoonup> listener list"
  next_wrapper :: nat
  callback_throws :: "nat \<Rightarrow> 'p \<Rightarrow> bool"
  invoked :: "(listener \<times> 'p) list"
  reported :: "(string \<times> listener) list"

definition set_add :: "'a \<Rightarrow> 'a list \<Rightarrow> 'a list" where
  "set_add x xs = (if x \<in> set xs then xs else xs @ [x])"

definition set_delete :: "'a \<Rightarrow> 'a list \<Rightarrow> 'a list" where
  "set_delete x xs = removeAll x xs"

definition listeners :: "'p bus \<Rightarrow> string \<Rightarrow> listener list" where
  "listeners b name = (case handlers b name of None \<Rightarrow> [] | Some hs \<Rightarrow> hs)"

text \<open>
  \<^verbatim>\<open>on(eventName, handler)\<close>: create the set when the name has none, then add.
\<close>

definition events_on :: "string \<Rightarrow> listener \<Rightarrow> 'p bus \<Rightarrow> 'p bus" where
  "events_on eventName handler b =
     (let b1 = (if handlers b eventName = None
                then b\<lparr>handlers := (handlers b)(eventName \<mapsto> [])\<rparr> else b)
      in b1\<lparr>handlers := (handlers b1)(eventName \<mapsto> set_add handler (listeners b1 eventName))\<rparr>)"

text \<open>
  \<^verbatim>\<open>off(eventName, handler)\<close>: \<^verbatim>\<open>handlers.get(eventName)?.delete(handler)\<close>.
\<close>

definition events_off :: "string \<Rightarrow> listener \<Rightarrow> 'p bus \<Rightarrow> 'p bus" where
  "events_off eventName handler b =
     (case handlers b eventName of
        None \<Rightarrow> b
      | Some hs \<Rightarrow> b\<lparr>handlers := (handlers b)(eventName \<mapsto> set_delete handler hs)\<rparr>)"

text \<open>
  \<^verbatim>\<open>once(eventName, handler)\<close> allocates the wrapper and registers it; the
  wrapper, when called, first removes itself and then calls the handler.
\<close>

definition events_once :: "string \<Rightarrow> nat \<Rightarrow> 'p bus \<Rightarrow> 'p bus" where
  "events_once eventName handler b =
     events_on eventName (Wrapper (next_wrapper b) eventName handler)
        (b\<lparr>next_wrapper := Suc (next_wrapper b)\<rparr>)"

text \<open>
  Calling a registered function with a payload: the pair is whether the call threw, and
  the bus after it.
\<close>

fun call_listener :: "listener \<Rightarrow> 'p \<Rightarrow> 'p bus \<Rightarrow> bool \<times> 'p bus" where
  "call_listener (Callback c) payload b =
     (callback_throws b c payload, b\<lparr>invoked := invoked b @ [(Callback c, payload)]\<rparr>)"
| "call_listener (Wrapper w eventName c) payload b =
     (let b1 = events_off eventName (Wrapper w eventName c) b
      in (callback_throws b1 c payload,
          b1\<lparr>invoked := invoked b1 @ [(Wrapper w eventName c, payload)]\<rparr>))"

text \<open>
  \<^verbatim>\<open>eventHandlers.forEach(handler => { try { handler(payload) } catch (e) { console.error(...) } })\<close>.
  The only change to the set while the loop runs is a wrapper deleting itself during its own
  visit, so the members visited are those present when the loop starts, in their order.
\<close>

fun forEach :: "string \<Rightarrow> 'p \<Rightarrow> listener list \<Rightarrow> 'p bus \<Rightarrow> 'p bus" where
  "forEach eventName payload [] b = b"
| "forEach eventName payload (h # hs) b =
     (case call_listener h payload b of
        (threw, b1) \<Rightarrow>
          forEach eventName payload hs
            (if threw then b1\<lparr>reported := reported b1 @ [(eventName, h)]\<rparr> else b1))"

definition events_emit :: "string \<Rightarrow> 'p \<Rightarrow> 'p bus \<Rightarrow> 'p bus" where
  "events_emit eventName payload b =
     (case handlers b eventName of
        None \<Rightarrow> b
      | Some eventHandlers \<Rightarrow> forEach eventName payload eventHandlers b)"

text \<open>
  \<^verbatim>\<open>clear(eventName)\<close>: an empty or missing name is falsy and clears every name.
\<close>

definition events_clear :: "string option \<Rightarrow> 'p bus \<Rightarrow> 'p bus" where
  "events_clear eventName b =
     (case eventName of
        Some name \<Rightarrow> (if name \<noteq> [] then b\<lparr>handlers := (handlers b)(name := None)\<rparr>
                      else b\<lparr>handlers := Map.empty\<rparr>)
      | None \<Rightarrow> b\<lparr>handlers := Map.empty\<rparr>)"

definition target :: "listener \<Rightarrow> nat" where
  "target h = (case h of Callback c \<Rightarrow> c | Wrapper w eventName c \<Rightarrow> c)"

definition new_bus :: "(nat \<Rightarrow> 'p \<Rightarrow> bool) \<Rightarrow> 'p bus" where
  "new_bus thr = \<lparr>handlers = Map.empty, next_wrapper = 0, callback_throws = thr,
                  invoked = [], reported = []\<rparr>"

text \<open>
  A wrapper registered under the name it captured deletes itself from that name's set when
  it is called. Closures are numbered as they are allocated, so in a bus built by the
  operations above every wrapper, in a set or in the call record, has a number below
  \<open>next_wrapper\<close>.
\<close>

fun self_removing :: "string \<Rightarrow> listener \<Rightarrow> bool" where
  "self_removing name (Callback c) = False"
| "self_removing name (Wrapper w eventName c) = (eventName = name)"

definition wf_bus :: "'p bus \<Rightarrow> bool" where
  "wf_bus b \<longleftrightarrow>
     (\<forall>name w n c. Wrapper w n c \<in> set (listeners b name) \<longrightarrow> w < next_wrapper b)
     \<and> (\<forall>w n c p. (Wrapper w n c, p) \<in> set (invoked b) \<longrightarrow> w < next_wrapper b)"

section \<open>StateStore (src/state.ts)\<close>

text \<open>
  A stored value is \<^verbatim>\<open>unknown\<close>; what the store itself tells apart is
  \<^verbatim>\<open>undefined\<close> from everything else. \<^verbatim>\<open>StoredValue\<close> is the value with
  an optional expiry timestamp.
\<close>

datatype jsval = Undefined | Null | Boolean bool | Number int | String string

record stored =
  stored_value :: jsval
  expiry :: "int option"

text \<open>
  The host's \<^verbatim>\<open>Storage\<close> holds strings. What \<^verbatim>\<open>getFromStorage\<close> can tell
  about a string is: it is empty; \<^verbatim>\<open>JSON.parse\<close> throws on it; it parses to a falsy
  value (\<^verbatim>\<open>null\<close>, \<^verbatim>\<open>false\<close>, \<^verbatim>\<open>0\<close>, \<^verbatim>\<open>""\<close>); or it parses to a
  record, read through its \<^verbatim>\<open>value\<close> and \<^verbatim>\<open>expiry\<close> fields (a missing field
  reads as \<^verbatim>\<open>undefined\<close>). \<^verbatim>\<open>JSON.stringify\<close> of a \<^verbatim>\<open>StoredValue\<close> gives
  a text of the last kind. \<^verbatim>\<open>setItem\<close> throws when the host refuses the write.
\<close>

datatype raw = Text_empty | Text_invalid | Text_falsy | Text_record stored

record storage =
  items :: "(string \<times> raw) list"
  quota_exceeded :: bool

datatype storage_error = QuotaExceededError

definition getItem :: "storage \<Rightarrow> string \<Rightarrow> raw option" where
  "getItem st k = map_of (items st) k"

definition setItem :: "storage \<Rightarrow> string \<Rightarrow> raw \<Rightarrow> storage_error + storage" where
  "setItem st k v =
     (if quota_exceeded st then Inl QuotaExceededError
      else Inr (st\<lparr>items := AList.update k v (items st)\<rparr>))"

definition removeItem :: "storage \<Rightarrow> string \<Rightarrow> storage" where
  "removeItem st k = st\<lparr>items := AList.delete k (items st)\<rparr>"

definition JSON_stringify :: "stored \<Rightarrow> raw" where
  "JSON_stringify s = Text_record s"

text \<open>
  \<^verbatim>\<open>persist?: 'session' | 'local'\<close> and the options of \<^verbatim>\<open>set\<close>.
\<close>

datatype tier = Session | Local

record StateOptions =
  persist :: "tier option"
  ttl :: "int option"

text \<open>
  An event payload: some value, or the object \<^verbatim>\<open>{ value, oldValue }\<close> of a state
  change.
\<close>

datatype payload = Data jsval | Change jsval jsval

text \<open>
  The module's state and its surroundings: the \<^verbatim>\<open>memoryStore\<close> map, whether a
  \<^verbatim>\<open>window\<close> exists, the two host storages, the clock read by \<^verbatim>\<open>Date.now()\<close>,
  the event bus, and what \<^verbatim>\<open>saveToStorage\<close> wrote with \<^verbatim>\<open>console.error\<close>.
\<close>

record world =
  memoryStore :: "string \<rightharpoonup> stored"
  window :: bool
  sessionStorage :: storage
  localStorage :: storage
  now :: int
  events :: "payload bus"
  console_error :: "string list"

definition STORAGE_PREFIX :: string where
  "STORAGE_PREFIX = ''cc:''"

text \<open>
  \<^verbatim>\<open>getStorage\<close> returns one of the two storage objects or \<^verbatim>\<open>null\<close>; the
  model returns which one, and \<open>storage_of\<close> and \<open>with_storage\<close> read and write it
  in the world.
\<close>

definition getStorage :: "tier option \<Rightarrow> world \<Rightarrow> tier option" where
  "getStorage p w =
     (if \<not> window w then None
      else (case p of
              Some Session \<Rightarrow> Some Session
            | Some Local \<Rightarrow> Some Local
            | None \<Rightarrow> None))"

fun storage_of :: "tier \<Rightarrow> world \<Rightarrow> storage" where
  "storage_of Session w = sessionStorage w"
| "storage_of Local w = localStorage w"

fun with_storage :: "tier \<Rightarrow> storage \<Rightarrow> world \<Rightarrow> world" where
  "with_storage Session st w = w\<lparr>sessionStorage := st\<rparr>"
| "with_storage Local st w = w\<lparr>localStorage := st\<rparr>"

definition isExpired :: "int \<Rightarrow> stored \<Rightarrow> bool" where
  "isExpired date_now s = (case expiry s of None \<Rightarrow> False | Some e \<Rightarrow> date_now > e)"

text \<open>
  \<^verbatim>\<open>getFromStorage\<close>: \<^verbatim>\<open>null\<close> for a missing or empty item and for a text that
  does not parse (the \<^verbatim>\<open>catch\<close>). A text that parses to a falsy value is returned as
  that value and fails the caller's \<^verbatim>\<open>if (stored)\<close>; it is \<open>None\<close> here as well.
\<close>

definition getFromStorage :: "string \<Rightarrow> storage \<Rightarrow> stored option" where
  "getFromStorage key st =
     (case getItem st (STORAGE_PREFIX @ key) of
        None \<Rightarrow> None
      | Some Text_empty \<Rightarrow> None
      | Some Text_invalid \<Rightarrow> None
      | Some Text_falsy \<Rightarrow> None
      | Some (Text_record s) \<Rightarrow> Some s)"

definition saveToStorage :: "string \<Rightarrow> stored \<Rightarrow> tier \<Rightarrow> world \<Rightarrow> world" where
  "saveToStorage key s t w =
     (case setItem (storage_of t w) (STORAGE_PREFIX @ key) (JSON_stringify s) of
        Inr st \<Rightarrow> with_storage t st w
      | Inl e \<Rightarrow> w\<lparr>console_error := console_error w @ [''Failed to save to storage: '' @ key]\<rparr>)"

definition removeFromStorage :: "string \<Rightarrow> tier \<Rightarrow> world \<Rightarrow> world" where
  "removeFromStorage key t w = with_storage t (removeItem (storage_of t w) (STORAGE_PREFIX @ key)) w"

text \<open>
  The loop of \<^verbatim>\<open>get\<close> over \<^verbatim>\<open>['session', 'local']\<close>: skip a tier without
  storage or without a record; remove an expired record and go on; return the value of the
  first record that has not expired.
\<close>

fun get_persistent :: "tier list \<Rightarrow> string \<Rightarrow> world \<Rightarrow> jsval \<times> world" where
  "get_persistent [] key w = (Undefined, w)"
| "get_persistent (p # ps) key w =
     (case getStorage (Some p) w of
        None \<Rightarrow> get_persistent ps key w
      | Some t \<Rightarrow>
          (case getFromStorage key (storage_of t w) of
             None \<Rightarrow> get_persistent ps key w
           | Some s \<Rightarrow>
               if isExpired (now w) s then get_persistent ps key (removeFromStorage key t w)
               else (stored_value s, w)))"

text \<open>
  The loop of \<^verbatim>\<open>remove\<close> over the two tiers.
\<close>

fun remove_persistent :: "tier list \<Rightarrow> string \<Rightarrow> world \<Rightarrow> world" where
  "remove_persistent [] key w = w"
| "remove_persistent (p # ps) key w =
     (case getStorage (Some p) w of
        None \<Rightarrow> remove_persistent ps key w
      | Some t \<Rightarrow> remove_persistent ps key (removeFromStorage key t w))"

text \<open>
  \<^verbatim>\<open>get\<close> calls \<^verbatim>\<open>this.remove(key)\<close> on an expired memory entry, and
  \<^verbatim>\<open>remove\<close> starts with \<^verbatim>\<open>this.get(key)\<close>: the two are mutually recursive.
  The first argument bounds the nesting of calls, as the engine's call stack does; when it
  is used up the call throws \<^verbatim>\<open>RangeError\<close> (maximum call stack size exceeded), and
  nothing in the module catches it. \<^verbatim>\<open>events.emit\<close> is the dispatcher of the first
  section.
\<close>

datatype error = RangeError

fun state_get :: "nat \<Rightarrow> string \<Rightarrow> world \<Rightarrow> error + (jsval \<times> world)"
  and state_remove :: "nat \<Rightarrow> string \<Rightarrow> world \<Rightarrow> error + world" where
  "state_get 0 key w = Inl RangeError"
| "state_get (Suc depth) key w =
     (case memoryStore w key of
        Some mem \<Rightarrow>
          if isExpired (now w) mem then
            (case state_remove depth key w of
               Inl e \<Rightarrow> Inl e
             | Inr w1 \<Rightarrow> Inr (Undefined, w1))
          else Inr (stored_value mem, w)
      | None \<Rightarrow> Inr (get_persistent [Session, Local] key w))"
| "state_remove 0 key w = Inl RangeError"
| "state_remove (Suc depth) key w =
     (case state_get depth key w of
        Inl e \<Rightarrow> Inl e
      | Inr (oldValue, w1) \<Rightarrow>
          if oldValue = Undefined then Inr w1
          else
            (let w2 = w1\<lparr>memoryStore := (memoryStore w1)(key := None)\<rparr>;
                 w3 = remove_persistent [Session, Local] key w2
             in Inr (w3\<lparr>events :=
                        events_emit (''state:'' @ key) (Change Undefined oldValue) (events w3)\<rparr>)))"

text \<open>
  \<^verbatim>\<open>set\<close>: read the old value, build the record (a \<^verbatim>\<open>ttl\<close> of \<^verbatim>\<open>0\<close> is
  falsy and gives no expiry), write it to the storage \<^verbatim>\<open>getStorage\<close> returns and
  delete the memory entry, or write it to memory when \<^verbatim>\<open>getStorage\<close> returns
  \<^verbatim>\<open>null\<close>; then emit.
\<close>

fun state_set :: "nat \<Rightarrow> string \<Rightarrow> jsval \<Rightarrow> StateOptions \<Rightarrow> world \<Rightarrow> error + world" where
  "state_set 0 key v options w = Inl RangeError"
| "state_set (Suc depth) key v options w =
     (case state_get depth key w of
        Inl e \<Rightarrow> Inl e
      | Inr (oldValue, w1) \<Rightarrow>
          (let s = \<lparr>stored_value = v,
                    expiry = (case ttl options of
                                None \<Rightarrow> None
                              | Some t \<Rightarrow> if t \<noteq> 0 then Some (now w1 + t) else None)\<rparr>;
               w2 = (case getStorage (persist options) w1 of
                       Some t \<Rightarrow>
                         (let w' = saveToStorage key s t w1
                          in w'\<lparr>memoryStore := (memoryStore w')(key := None)\<rparr>)
                     | None \<Rightarrow> w1\<lparr>memoryStore := (memoryStore w1)(key \<mapsto> s)\<rparr>)
           in Inr (w2\<lparr>events :=
                      events_emit (''state:'' @ key) (Change v oldValue) (events w2)\<rparr>)))"

fun state_has :: "nat \<Rightarrow> string \<Rightarrow> world \<Rightarrow> error + (bool \<times> world)" where
  "state_has 0 key w = Inl RangeError"
| "state_has (Suc depth) key w =
     (case state_get depth key w of
        Inl e \<Rightarrow> Inl e
      | Inr (v, w1) \<Rightarrow> Inr (v \<noteq> Undefined, w1))"

text \<open>
  \<^verbatim>\<open>clear\<close>: empty the memory map; in each storage collect the keys that start with
  the prefix, then remove them.
\<close>

definition startsWith :: "string \<Rightarrow> string \<Rightarrow> bool" where
  "startsWith s pre = (take (length pre) s = pre)"

definition clear_storage :: "storage \<Rightarrow> storage" where
  "clear_storage st =
     (let keysToRemove = filter (\<lambda>k. startsWith k STORAGE_PREFIX) (map fst (items st))
      in fold (\<lambda>k s. removeItem s k) keysToRemove st)"

fun clear_persistent :: "tier list \<Rightarrow> world \<Rightarrow> world" where
  "clear_persistent [] w = w"
| "clear_persistent (p # ps) w =
     (case getStorage (Some p) w of
        None \<Rightarrow> clear_persistent ps w
      | Some t \<Rightarrow> clear_persistent ps (with_storage t (clear_storage (storage_of t w)) w))"

definition state_clear :: "world \<Rightarrow> world" where
  "state_clear w = clear_persistent [Session, Local] (w\<lparr>memoryStore := Map.empty\<rparr>)"

section \<open>The lookup order, as the specification words it\<close>

text \<open>
  The reading of a tier that \<^verbatim>\<open>get\<close> makes: what \<^verbatim>\<open>getFromStorage\<close> finds in
  the storage \<^verbatim>\<open>getStorage\<close> returns for the tier, nothing when it returns
  \<^verbatim>\<open>null\<close>. An entry is live when it has not expired.
\<close>

definition tier_entry :: "tier \<Rightarrow> string \<Rightarrow> world \<Rightarrow> stored option" where
  "tier_entry t key w =
     (case getStorage (Some t) w of
        None \<Rightarrow> None
      | Some t' \<Rightarrow> getFromStorage key (storage_of t' w))"

definition live_entry :: "int \<Rightarrow> stored option \<Rightarrow> stored option" where
  "live_entry date_now e =
     (case e of None \<Rightarrow> None | Some s \<Rightarrow> if isExpired date_now s then None else Some s)"

text \<open>
  The specification's lookup: the first tier, in the order memory, session, local, that holds
  a live entry gives the value; an expired entry met in the session or local tier on the way
  is removed from that tier, and from no other. \<open>lookup_order_spec\<close> is written from
  these words, not from the code; the theorems compare \<open>state_get\<close> with it, for the
  states in which the memory entry of the key, if there is one, has not expired.
\<close>

definition purge_expired :: "tier \<Rightarrow> string \<Rightarrow> world \<Rightarrow> world" where
  "purge_expired t key w =
     (case tier_entry t key w of
        None \<Rightarrow> w
      | Some s \<Rightarrow> if isExpired (now w) s then removeFromStorage key t w else w)"

definition lookup_order_spec :: "string \<Rightarrow> world \<Rightarrow> jsval \<times> world" where
  "lookup_order_spec key w =
     (case live_entry (now w) (memoryStore w key) of
        Some m \<Rightarrow> (stored_value m, w)
      | None \<Rightarrow>
          (case live_entry (now w) (tier_entry Session key w) of
             Some s \<Rightarrow> (stored_value s, w)
           | None \<Rightarrow>
               (case live_entry (now w) (tier_entry Local key w) of
                  Some l \<Rightarrow> (stored_value l, purge_expired Session key w)
                | None \<Rightarrow> (Undefined, purge_expired Local key (purge_expired Session key w)))))"

section \<open>Conditions and sample states used in the statements\<close>

text \<open>
  A browser session with nothing stored, at time \<open>0\<close>, whose callbacks never throw.
\<close>

definition empty_storage :: storage where
  "empty_storage = \<lparr>items = [], quota_exceeded = False\<rparr>"

definition empty_world :: world where
  "empty_world =
     \<lparr>memoryStore = Map.empty, window = True, sessionStorage = empty_storage,
      localStorage = empty_storage, now = 0, events = new_bus (\<lambda>c p. False),
      console_error = []\<rparr>"

text \<open>
  \<open>memory_not_expired key w\<close>: the memory map holds no entry for the key, or one that has
  not expired. \<open>not_expired_in t key w\<close>: the same for what is read from tier \<open>t\<close>.
\<close>

definition not_expired_in :: "tier \<Rightarrow> string \<Rightarrow> world \<Rightarrow> bool" where
  "not_expired_in t key w =
     (case tier_entry t key w of None \<Rightarrow> True | Some s \<Rightarrow> \<not> isExpired (now w) s)"

definition memory_not_expired :: "string \<Rightarrow> world \<Rightarrow> bool" where
  "memory_not_expired key w =
     (case memoryStore w key of None \<Rightarrow> True | Some mem \<Rightarrow> \<not> isExpired (now w) mem)"

text \<open>
  Sample states: a key in memory with a listener on its change event; a key held both in
  memory and in the session storage; a host without \<^verbatim>\<open>window\<close>; a key held in the
  session storage only.
\<close>

definition world_with_listener :: world where
  "world_with_listener =
     empty_world\<lparr>memoryStore := [''a'' \<mapsto> \<lparr>stored_value = Number 1, expiry = None\<rparr>],
       events := events_on ''state:a'' (Callback 0) (new_bus (\<lambda>c p. False))\<rparr>"

definition world_two_copies :: world where
  "world_two_copies =
     empty_world\<lparr>memoryStore := [''k'' \<mapsto> \<lparr>stored_value = Number 1, expiry = None\<rparr>],
       sessionStorage := \<lparr>items = [(''cc:k'', Text_record \<lparr>stored_value = Number 2, expiry = None\<rparr>)],
                          quota_exceeded = False\<rparr>\<rparr>"

definition world_no_window :: world where
  "world_no_window = empty_world\<lparr>window := False\<rparr>"

text \<open>
  The condition under which the record written by \<^verbatim>\<open>set(key, undefined, options)\<close> is the
  one the next lookup meets: the \<^verbatim>\<open>ttl\<close> is not negative; the host accepts the write
  when it goes to a storage; and when it goes to the local storage, the session storage,
  which is read before it, holds no live entry for the key.
\<close>

definition undefined_write_visible :: "StateOptions \<Rightarrow> string \<Rightarrow> world \<Rightarrow> bool" where
  "undefined_write_visible options key w =
     ((case ttl options of None \<Rightarrow> True | Some t \<Rightarrow> 0 \<le> t)
      \<and> (case getStorage (persist options) w of
            None \<Rightarrow> True
          | Some Session \<Rightarrow> \<not> quota_exceeded (sessionStorage w)
          | Some Local \<Rightarrow>
              \<not> quota_exceeded (localStorage w)
              \<and> live_entry (now w) (tier_entry Session key w) = None))"

definition world_session_copy :: world where
  "world_session_copy =
     empty_world\<lparr>sessionStorage :=
       \<lparr>items = [(''cc:k'', Text_record \<lparr>stored_value = Number 5, expiry = None\<rparr>)],
        quota_exceeded = False\<rparr>\<rparr>"

section \<open>The realtime binding (src/db.ts)\<close>

text \<open>
  A live feed is kept per collection, or per record of a collection. \<^verbatim>\<open>realtimeUnsubscribers\<close>
  maps a collection, and \<^verbatim>\<open>realtimeRecordUnsubscribers\<close> a key
  \<^verbatim>\<open>collection:id\<close>, to the function that \<^verbatim>\<open>subscribe\<close> returned; the function is
  stood for by the subscription it cancels. \<open>remote\<close> records the calls made on the
  backend client.

  \<^verbatim>\<open>enableRealtime\<close> is asynchronous: it returns at once when the map has the
  collection, otherwise it calls \<^verbatim>\<open>subscribe\<close> and is suspended at the
  \<^verbatim>\<open>await\<close> (\<open>awaiting\<close> holds the suspended calls); when the subscription is
  confirmed it resumes and stores the function. When the subscription is refused the call
  ends without storing anything. \<^verbatim>\<open>disableRealtime\<close> has no \<^verbatim>\<open>await\<close>: it runs
  to its end when called. The creation of the backend client by \<^verbatim>\<open>getClient\<close> is left
  out.
\<close>

datatype rkey = Collection string | Item string string

datatype remote_call = Subscribe string string | Unsubscribe string string

record db_state =
  realtimeUnsubscribers :: "string \<rightharpoonup> string \<times> string"
  realtimeRecordUnsubscribers :: "string \<rightharpoonup> string \<times> string"
  awaiting :: "rkey list"
  remote :: "remote_call list"









section \<open>Resource-backed subscriptions\<close>

text \<open>
  \<^verbatim>\<open>db.ts\<close> hands these four functions to the events module through
  \<^verbatim>\<open>setDbModule\<close>, "called by events module". That module's bookkeeping, the part
  of \<^verbatim>\<open>on\<close> and \<^verbatim>\<open>off\<close> that counts listeners and calls the binding, is not
  among the sources: the bundle's \<^verbatim>\<open>on\<close> and \<^verbatim>\<open>off\<close> only add to and delete
  from the handler set. The definitions of this section are therefore written from
  sections 3, 4.2, 4.4 and 5 of the specification, on top of the bundle's
  \<open>events_on\<close> and \<open>events_off\<close> and of the binding above.
\<close>

text \<open>
  Modelled from the spec: the parser of resource-backed event names in the events module,
  which is missing. The grammar is \<^verbatim>\<open>resource:{id}:{action}\<close> for a collection and
  \<^verbatim>\<open>resource:{id}:{action}:{subId}\<close> for a single item; every other name is a custom
  name. The action is not part of the key.
\<close>

fun split_on :: "char \<Rightarrow> string \<Rightarrow> string list" where
  "split_on c [] = [] # []"
| "split_on c (x # xs) =
     (if x = c then [] # split_on c xs
      else (case split_on c xs of
              [] \<Rightarrow> [x] # []
            | p # ps \<Rightarrow> (x # p) # ps))"

definition parse_resource :: "string \<Rightarrow> rkey option" where
  "parse_resource name =
     (case split_on CHR '':'' name of
        [kind, ident, action] \<Rightarrow>
          if kind = ''resource'' then Some (Collection ident) else None
      | [kind, ident, action, subId] \<Rightarrow>
          if kind = ''resource'' then Some (Item ident subId) else None
      | _ \<Rightarrow> None)"

text \<open>
  Modelled from the spec: the \<^verbatim>\<open>ResourceRefcount\<close> record of the missing events module.
  The release token is opaque, so the record counts tokens: \<open>liveHandle\<close> is the number
  of live handles the bus has, one for each \<^verbatim>\<open>enable\<close> that has completed and whose
  matching \<^verbatim>\<open>disable\<close> has not completed (the live handle is set when it is not 0);
  \<open>pendingDisable\<close> is the number of them handed to a \<^verbatim>\<open>disable\<close> that is still in
  flight (the Disabling flag of section 5). \<open>count\<close> is the number of registered
  listeners of the resource, and \<open>pendingEnable\<close> tells whether an \<^verbatim>\<open>enable\<close> is in
  flight.
\<close>

record refcount =
  count :: nat
  pendingEnable :: bool
  pendingDisable :: nat
  liveHandle :: nat



text \<open>
  Modelled from the spec: the state of the missing events module. \<open>calls\<close> records, in
  order, each call the bus makes on the binding (\<open>Enable\<close>, \<open>Disable\<close>) and each
  settlement of a call it receives (\<open>Enabled\<close> and \<open>Rejected\<close> for an
  \<^verbatim>\<open>enable\<close>, \<open>Disabled\<close> for a \<^verbatim>\<open>disable\<close>). A call on the binding runs the
  function of \<^verbatim>\<open>db.ts\<close> for the key.
\<close>

datatype binding_event =
  Enable rkey | Enabled rkey | Rejected rkey | Disable rkey | Disabled rkey

text \<open>
  Modelled from the spec: the module state of the missing events module, next to the
  binding's: the handler sets (the bundle's bus), one refcount record per resource key, and
  the record of calls.
\<close>

record 'p hub =
  bus :: "'p bus"
  refs :: "rkey \<Rightarrow> refcount"
  calls :: "binding_event list"
  db :: db_state


























section \<open>EventBus: fan-out of emit\<close>

lemma call_listener_invoked:
  "invoked (snd (call_listener h p b)) = invoked b @ [(h, p)]"
  by (cases h) (simp_all add: events_off_def Let_def split: option.splits)

lemma call_listener_reported:
  "reported (snd (call_listener h p b)) = reported b"
  by (cases h) (simp_all add: events_off_def Let_def split: option.splits)

lemma call_listener_throws:
  "callback_throws (snd (call_listener h p b)) = callback_throws b"
  by (cases h) (simp_all add: events_off_def Let_def split: option.splits)

lemma call_listener_threw:
  "fst (call_listener h p b) = callback_throws b (target h) p"
  by (cases h) (simp_all add: events_off_def Let_def target_def split: option.splits)

lemma forEach_throws:
  "callback_throws (forEach name p hs b) = callback_throws b"
proof (induction hs arbitrary: b)
  case Nil
  show ?case by simp
next
  case (Cons h hs)
  obtain threw b1 where c: "call_listener h p b = (threw, b1)"
    by (cases "call_listener h p b")
  have "callback_throws b1 = callback_throws b"
    using call_listener_throws [of h p b] c by simp
  then show ?case using Cons.IH c by simp
qed

lemma forEach_invoked:
  "invoked (forEach name p hs b) = invoked b @ map (\<lambda>h. (h, p)) hs"
proof (induction hs arbitrary: b)
  case Nil
  show ?case by simp
next
  case (Cons h hs)
  obtain threw b1 where c: "call_listener h p b = (threw, b1)"
    by (cases "call_listener h p b")
  have "invoked b1 = invoked b @ [(h, p)]"
    using call_listener_invoked [of h p b] c by simp
  then show ?case using Cons.IH c by simp
qed

lemma forEach_reported:
  "reported (forEach name p hs b) =
     reported b @ map (\<lambda>h. (name, h)) (filter (\<lambda>h. callback_throws b (target h) p) hs)"
proof (induction hs arbitrary: b)
  case Nil
  show ?case by simp
next
  case (Cons h hs)
  obtain threw b1 where c: "call_listener h p b = (threw, b1)"
    by (cases "call_listener h p b")
  have r: "reported b1 = reported b"
    using call_listener_reported [of h p b] c by simp
  have t: "callback_throws b1 = callback_throws b"
    using call_listener_throws [of h p b] c by simp
  have f: "threw = callback_throws b (target h) p"
    using call_listener_threw [of h p b] c by simp
  show ?case using Cons.IH c r t f by simp
qed

text \<open>
  Claim C7. For every event name and payload, \<^verbatim>\<open>emit\<close> calls every listener registered
  for exactly that name, each once, in subscription order and with that payload, whether or
  not an earlier listener threw; each listener whose callback throws is reported on the
  console, and the loop goes on. \<^verbatim>\<open>emit\<close> returns the bus: the only call that can
  throw sits inside the \<^verbatim>\<open>try\<close> of the loop body.
\<close>

theorem emit_fan_out:
  "invoked (events_emit name p b) = invoked b @ map (\<lambda>h. (h, p)) (listeners b name)
   \<and> reported (events_emit name p b) =
       reported b @ map (\<lambda>h. (name, h))
                      (filter (\<lambda>h. callback_throws b (target h) p) (listeners b name))"
  by (simp add: events_emit_def listeners_def forEach_invoked forEach_reported split: option.splits)

section \<open>Listeners registered with once\<close>

lemma events_off_listeners:
  "listeners (events_off n h b) n' = (if n = n' then removeAll h (listeners b n') else listeners b n')"
  by (simp add: events_off_def listeners_def set_delete_def split: option.splits)

lemma events_on_listeners:
  "listeners (events_on n h b) n' = (if n = n' then set_add h (listeners b n') else listeners b n')"
  by (simp add: events_on_def listeners_def Let_def split: option.splits)

lemma events_once_listeners:
  "listeners (events_once n c b) n' =
     (if n = n' then set_add (Wrapper (next_wrapper b) n c) (listeners b n') else listeners b n')"
  by (simp add: events_once_def events_on_def listeners_def Let_def split: option.splits)

lemma call_listener_listeners:
  "listeners (snd (call_listener h p b)) n =
     (if self_removing n h then removeAll h (listeners b n) else listeners b n)"
proof (cases h)
  case (Callback c)
  then show ?thesis by (simp add: listeners_def)
next
  case (Wrapper w e c)
  have "listeners (snd (call_listener h p b)) n = listeners (events_off e h b) n"
    using Wrapper by (simp add: Let_def listeners_def)
  then show ?thesis using Wrapper by (auto simp add: events_off_listeners)
qed

lemma forEach_listeners:
  "listeners (forEach name p hs b) n =
     filter (\<lambda>h. \<not> (self_removing n h \<and> h \<in> set hs)) (listeners b n)"
proof (induction hs arbitrary: b)
  case Nil
  show ?case by simp
next
  case (Cons h hs)
  obtain threw b1 where c: "call_listener h p b = (threw, b1)"
    by (cases "call_listener h p b")
  have l: "listeners b1 n = (if self_removing n h then removeAll h (listeners b n) else listeners b n)"
    using call_listener_listeners [of h p b n] c by simp
  have "listeners (forEach name p (h # hs) b) n =
          filter (\<lambda>x. \<not> (self_removing n x \<and> x \<in> set hs)) (listeners b1 n)"
    using Cons.IH c by (simp add: listeners_def)
  also have "\<dots> = filter (\<lambda>x. \<not> (self_removing n x \<and> x \<in> set (h # hs))) (listeners b n)"
    using l by (auto simp add: removeAll_filter_not_eq intro: filter_cong)
  finally show ?case .
qed

lemma events_emit_listeners:
  "listeners (events_emit name p b) n =
     (if n = name then filter (\<lambda>h. \<not> self_removing name h) (listeners b name)
      else filter (\<lambda>h. \<not> (self_removing n h \<and> h \<in> set (listeners b name))) (listeners b n))"
proof (cases "handlers b name")
  case None
  then show ?thesis by (simp add: events_emit_def listeners_def)
next
  case (Some hs)
  then have "listeners (events_emit name p b) n =
       filter (\<lambda>h. \<not> (self_removing n h \<and> h \<in> set hs)) (listeners b n)"
    by (simp add: events_emit_def forEach_listeners)
  moreover have "listeners b name = hs" using Some by (simp add: listeners_def)
  ultimately show ?thesis by (auto intro: filter_cong)
qed

lemma events_emit_invoked:
  "invoked (events_emit name p b) = invoked b @ map (\<lambda>h. (h, p)) (listeners b name)"
  by (simp add: events_emit_def listeners_def forEach_invoked split: option.splits)

text \<open>
  Claim C8, as amended. A listener registered with \<^verbatim>\<open>once\<close> is called exactly once by
  two successive \<^verbatim>\<open>emit\<close>s of its name, by the first of them and with its payload,
  the wrapper having left the set before the second. \<^verbatim>\<open>once\<close> returns no handle, and
  \<^verbatim>\<open>off\<close> with the original callback leaves the wrapper registered.
\<close>

theorem once_fires_once:
  assumes "wf_bus b"
  shows "filter (\<lambda>e. fst e = Wrapper (next_wrapper b) name c)
           (invoked (events_emit name p2 (events_emit name p1 (events_once name c b))))
         = [(Wrapper (next_wrapper b) name c, p1)]
       \<and> Wrapper (next_wrapper b) name c
           \<in> set (listeners (events_off name (Callback c) (events_once name c b)) name)"
proof -
  let ?w = "Wrapper (next_wrapper b) name c"
  let ?hs = "listeners b name"
  have fresh: "?w \<notin> set ?hs"
    using assms unfolding wf_bus_def by (metis less_irrefl)
  have old: "filter (\<lambda>e. fst e = ?w) (invoked b) = []"
  proof -
    have "\<And>p. (?w, p) \<notin> set (invoked b)"
      using assms unfolding wf_bus_def by (metis less_irrefl)
    then show ?thesis by (auto simp add: filter_empty_conv)
  qed
  have l1: "listeners (events_once name c b) name = ?hs @ [?w]"
    using fresh by (simp add: events_once_listeners set_add_def)
  have i1: "invoked (events_once name c b) = invoked b"
    by (simp add: events_once_def events_on_def Let_def)
  have l2: "listeners (events_emit name p1 (events_once name c b)) name
              = filter (\<lambda>h. \<not> self_removing name h) ?hs"
    by (simp add: events_emit_listeners l1)
  have gone: "?w \<notin> set (listeners (events_emit name p1 (events_once name c b)) name)"
    using fresh by (simp add: l2)
  have "invoked (events_emit name p2 (events_emit name p1 (events_once name c b)))
          = invoked b @ map (\<lambda>h. (h, p1)) (?hs @ [?w])
              @ map (\<lambda>h. (h, p2)) (listeners (events_emit name p1 (events_once name c b)) name)"
    by (simp add: events_emit_invoked l1 i1)
  moreover have "filter (\<lambda>e. fst e = ?w) (map (\<lambda>h. (h, p1)) (?hs @ [?w])) = [(?w, p1)]"
    using fresh by (auto simp add: filter_map comp_def filter_empty_conv)
  moreover have "filter (\<lambda>e. fst e = ?w)
                   (map (\<lambda>h. (h, p2)) (listeners (events_emit name p1 (events_once name c b)) name)) = []"
    using gone by (auto simp add: filter_map comp_def filter_empty_conv)
  ultimately have first: "filter (\<lambda>e. fst e = ?w)
           (invoked (events_emit name p2 (events_emit name p1 (events_once name c b)))) = [(?w, p1)]"
    using old by simp
  have "?w \<in> set (listeners (events_off name (Callback c) (events_once name c b)) name)"
    by (simp add: events_off_listeners l1)
  with first show ?thesis by simp
qed

text \<open>
  The condition holds at the start and is kept by every operation of the bus.
\<close>

lemma wf_new_bus: "wf_bus (new_bus thr)"
  by (simp add: wf_bus_def new_bus_def listeners_def)

lemma call_listener_next_wrapper:
  "next_wrapper (snd (call_listener h p b)) = next_wrapper b"
  by (cases h) (simp_all add: events_off_def Let_def split: option.splits)

lemma forEach_next_wrapper:
  "next_wrapper (forEach name p hs b) = next_wrapper b"
proof (induction hs arbitrary: b)
  case Nil
  show ?case by simp
next
  case (Cons h hs)
  obtain threw b1 where c: "call_listener h p b = (threw, b1)"
    by (cases "call_listener h p b")
  have "next_wrapper b1 = next_wrapper b"
    using call_listener_next_wrapper [of h p b] c by simp
  then show ?case using Cons.IH c by simp
qed

lemma wf_bus_on:
  assumes "wf_bus b"
  shows "wf_bus (events_on name (Callback c) b)"
proof -
  have n: "next_wrapper (events_on name (Callback c) b) = next_wrapper b"
    and i: "invoked (events_on name (Callback c) b) = invoked b"
    by (simp_all add: events_on_def Let_def)
  show ?thesis
    using assms unfolding wf_bus_def n i
    by (auto simp add: events_on_listeners set_add_def split: if_splits)
qed

lemma wf_bus_off:
  assumes "wf_bus b"
  shows "wf_bus (events_off name h b)"
proof -
  have n: "next_wrapper (events_off name h b) = next_wrapper b"
    and i: "invoked (events_off name h b) = invoked b"
    by (simp_all add: events_off_def split: option.splits)
  show ?thesis
    using assms unfolding wf_bus_def n i
    by (auto simp add: events_off_listeners split: if_splits)
qed

lemma wf_bus_once:
  assumes "wf_bus b"
  shows "wf_bus (events_once name c b)"
proof -
  have n: "next_wrapper (events_once name c b) = Suc (next_wrapper b)"
    and i: "invoked (events_once name c b) = invoked b"
    by (simp_all add: events_once_def events_on_def Let_def)
  show ?thesis
    using assms unfolding wf_bus_def n i
    by (auto simp add: events_once_listeners set_add_def less_Suc_eq split: if_splits)
qed

lemma wf_bus_emit:
  assumes "wf_bus b"
  shows "wf_bus (events_emit name p b)"
proof -
  have n: "next_wrapper (events_emit name p b) = next_wrapper b"
    by (simp add: events_emit_def forEach_next_wrapper split: option.splits)
  show ?thesis
    using assms unfolding wf_bus_def n
    by (auto simp add: events_emit_listeners events_emit_invoked split: if_splits; blast)
qed

theorem once_fires_once_witness:
  "wf_bus (new_bus (\<lambda>c p. False) :: nat bus)
   \<and> filter (\<lambda>e. fst e = Wrapper 0 ''evt'' 7)
           (invoked (events_emit ''evt'' (2::nat) (events_emit ''evt'' 1 (events_once ''evt'' 7 (new_bus (\<lambda>c p. False))))))
         = [(Wrapper 0 ''evt'' 7, 1)]"
proof -
  have h: "wf_bus (new_bus (\<lambda>c p. False) :: nat bus)" by (rule wf_new_bus)
  have n: "next_wrapper (new_bus (\<lambda>c p. False) :: nat bus) = 0" by (simp add: new_bus_def)
  show ?thesis using h n once_fires_once [OF h, of "''evt''" 7 2 1] by simp
qed

text \<open>
  Claim C8 as stated has the registration removable by \<^verbatim>\<open>off\<close> before it fires.
  After \<^verbatim>\<open>once("evt", cb)\<close> and \<^verbatim>\<open>off("evt", cb)\<close>, an \<^verbatim>\<open>emit\<close> still
  calls the callback.
\<close>

theorem once_not_removable_counterexample:
  "invoked (events_emit ''evt'' (1::nat)
      (events_off ''evt'' (Callback 7) (events_once ''evt'' 7 (new_bus (\<lambda>c p. False)))))
   = [(Wrapper 0 ''evt'' 7, 1)]"
  by (simp add: events_emit_def events_off_def events_once_def events_on_def new_bus_def listeners_def set_add_def
      set_delete_def Let_def)

section \<open>StateStore: the lookup\<close>

text \<open>
  While the memory map holds an expired entry for a key, \<^verbatim>\<open>get\<close> and \<^verbatim>\<open>remove\<close>
  call each other without end: neither deletes the entry before calling the other. Whatever
  the bound on the nesting, both end in \<^verbatim>\<open>RangeError\<close>.
\<close>

lemma expired_memory_overflows:
  assumes "memoryStore w key = Some mem" and "isExpired (now w) mem"
  shows "state_get depth key w = Inl RangeError \<and> state_remove depth key w = Inl RangeError"
proof (induction depth)
  case 0
  show ?case by simp
next
  case (Suc depth)
  have g: "state_get (Suc depth) key w = Inl RangeError"
    using assms Suc by simp
  have r: "state_remove (Suc depth) key w = Inl RangeError"
    using Suc by simp
  from g r show ?case by simp
qed

lemma removeFromStorage_frame [simp]:
  "window (removeFromStorage key t w) = window w"
  "now (removeFromStorage key t w) = now w"
  "memoryStore (removeFromStorage key t w) = memoryStore w"
  "events (removeFromStorage key t w) = events w"
  "console_error (removeFromStorage key t w) = console_error w"
  by (cases t; simp add: removeFromStorage_def)+

lemma removeFromStorage_fields [simp]:
  "sessionStorage (removeFromStorage key Local w) = sessionStorage w"
  "localStorage (removeFromStorage key Session w) = localStorage w"
  "sessionStorage (removeFromStorage key Session w) = removeItem (sessionStorage w) (STORAGE_PREFIX @ key)"
  "localStorage (removeFromStorage key Local w) = removeItem (localStorage w) (STORAGE_PREFIX @ key)"
  by (simp_all add: removeFromStorage_def)

lemma removeFromStorage_other [simp]:
  "t' \<noteq> t \<Longrightarrow> storage_of t' (removeFromStorage key t w) = storage_of t' w"
  by (cases t; cases t'; simp add: removeFromStorage_def)

lemma removeFromStorage_same [simp]:
  "storage_of t (removeFromStorage key t w) = removeItem (storage_of t w) (STORAGE_PREFIX @ key)"
  by (cases t; simp add: removeFromStorage_def)

lemma getItem_removeItem [simp]:
  "getItem (removeItem st k) k' = (if k' = k then None else getItem st k')"
  by (simp add: getItem_def removeItem_def delete_conv)

lemma getFromStorage_removeItem [simp]:
  "getFromStorage key (removeItem st (STORAGE_PREFIX @ key)) = None"
  by (simp add: getFromStorage_def)

lemma getStorage_Some [simp]:
  "getStorage (Some t) w = (if window w then Some t else None)"
  by (cases t) (simp_all add: getStorage_def)

lemma state_get_lookup:
  assumes "memory_not_expired key w"
  shows "state_get (Suc depth) key w = Inr (lookup_order_spec key w)"
proof (cases "memoryStore w key")
  case (Some mem)
  then show ?thesis using assms
    by (simp add: memory_not_expired_def lookup_order_spec_def live_entry_def)
next
  case None
  then show ?thesis
    by (simp add: lookup_order_spec_def live_entry_def tier_entry_def purge_expired_def
        split: option.splits)
qed

text \<open>
  With no expired entry for the key in the memory map, \<^verbatim>\<open>get\<close> does what the lemma
  above says: it consults the memory tier, then the session tier, then the local tier,
  returns the value of the first that holds a non-expired entry, and removes an expired
  record it meets in the session or local storage from that storage alone. An example: the
  session record has expired and is removed, the local value is returned.
\<close>

lemma state_get_lookup_example:
  "state_get 1 ''k''
     (empty_world\<lparr>now := 10,
        sessionStorage := \<lparr>items = [(''cc:k'', Text_record \<lparr>stored_value = Number 2, expiry = Some 5\<rparr>)],
                           quota_exceeded = False\<rparr>,
        localStorage := \<lparr>items = [(''cc:k'', Text_record \<lparr>stored_value = Number 3, expiry = None\<rparr>)],
                         quota_exceeded = False\<rparr>\<rparr>)
     = Inr (Number 3,
        empty_world\<lparr>now := 10,
          sessionStorage := \<lparr>items = [], quota_exceeded = False\<rparr>,
          localStorage := \<lparr>items = [(''cc:k'', Text_record \<lparr>stored_value = Number 3, expiry = None\<rparr>)],
                         quota_exceeded = False\<rparr>\<rparr>)"
proof -
  let ?w = "empty_world\<lparr>now := 10,
        sessionStorage := \<lparr>items = [(''cc:k'', Text_record \<lparr>stored_value = Number 2, expiry = Some 5\<rparr>)],
                           quota_exceeded = False\<rparr>,
        localStorage := \<lparr>items = [(''cc:k'', Text_record \<lparr>stored_value = Number 3, expiry = None\<rparr>)],
                         quota_exceeded = False\<rparr>\<rparr>"
  have h: "memory_not_expired ''k'' ?w"
    by (simp add: memory_not_expired_def empty_world_def)
  have "state_get (Suc 0) ''k'' ?w = Inr (lookup_order_spec ''k'' ?w)"
    using state_get_lookup [OF h, of 0] .
  then show ?thesis
    by (simp add: lookup_order_spec_def live_entry_def tier_entry_def purge_expired_def
        empty_world_def getFromStorage_def getItem_def STORAGE_PREFIX_def isExpired_def
        removeFromStorage_def removeItem_def)
qed

text \<open>
  Claim C3. For every key, \<^verbatim>\<open>get\<close> consults the memory tier, then the session tier,
  then the local tier, and returns the value of the first tier holding a non-expired entry;
  an expired entry is purged from its tier only and the search continues. The code does not
  do this for an expired memory entry: \<^verbatim>\<open>get\<close> calls \<^verbatim>\<open>this.remove(key)\<close>, which
  starts with \<^verbatim>\<open>this.get(key)\<close> while the entry is still in the map, and the two call
  each other without end. With the key expired in memory and live in the session storage,
  where the claim has the memory entry purged and the session value 2 returned, the call
  ends in \<^verbatim>\<open>RangeError\<close>, whatever the bound on the nesting.
\<close>

theorem get_expired_memory_throws:
  "state_get depth ''k''
     (empty_world\<lparr>now := 10,
        memoryStore := [''k'' \<mapsto> \<lparr>stored_value = Number 1, expiry = Some 5\<rparr>],
        sessionStorage := \<lparr>items = [(''cc:k'', Text_record \<lparr>stored_value = Number 2, expiry = None\<rparr>)],
                           quota_exceeded = False\<rparr>\<rparr>)
   = Inl RangeError"
proof -
  let ?w = "empty_world\<lparr>now := 10,
        memoryStore := [''k'' \<mapsto> \<lparr>stored_value = Number 1, expiry = Some 5\<rparr>],
        sessionStorage := \<lparr>items = [(''cc:k'', Text_record \<lparr>stored_value = Number 2, expiry = None\<rparr>)],
                           quota_exceeded = False\<rparr>\<rparr>"
  have m: "memoryStore ?w ''k'' = Some \<lparr>stored_value = Number 1, expiry = Some 5\<rparr>"
    by simp
  have e: "isExpired (now ?w) \<lparr>stored_value = Number 1, expiry = Some 5\<rparr>"
    by (simp add: isExpired_def)
  show ?thesis using expired_memory_overflows [OF m e, of depth] by simp
qed

section \<open>StateStore: records that do not decode\<close>

lemma tier_entry_malformed:
  assumes "getItem (storage_of t w) (STORAGE_PREFIX @ key) = Some Text_invalid"
  shows "tier_entry t key w = None"
  using assms by (simp add: tier_entry_def getFromStorage_def)

text \<open>
  Claim C4, as amended. When the record of a key in a persistent tier does not parse (and
  the memory map holds no expired entry for the key), \<^verbatim>\<open>get\<close> returns without
  throwing, the value it returns is the one it returns with that record absent, and the raw
  record is still in the tier afterwards.
\<close>

theorem get_malformed_record:
  assumes "memory_not_expired key w"
      and "getItem (storage_of t w) (STORAGE_PREFIX @ key) = Some Text_invalid"
  shows "\<exists>v w'. state_get (Suc depth) key w = Inr (v, w')
           \<and> getItem (storage_of t w') (STORAGE_PREFIX @ key) = Some Text_invalid
           \<and> (\<exists>w''. state_get (Suc depth) key (removeFromStorage key t w) = Inr (v, w''))"
proof -
  have m: "memory_not_expired key (removeFromStorage key t w)"
    using assms(1) by (simp add: memory_not_expired_def split: option.splits)
  have g1: "state_get (Suc depth) key w = Inr (lookup_order_spec key w)"
    using state_get_lookup [OF assms(1)] .
  have g2: "state_get (Suc depth) key (removeFromStorage key t w)
              = Inr (lookup_order_spec key (removeFromStorage key t w))"
    using state_get_lookup [OF m] .
  have kept: "getItem (storage_of t (snd (lookup_order_spec key w))) (STORAGE_PREFIX @ key)
                = Some Text_invalid"
    using assms(2)
    by (cases t)
       (auto simp add: lookup_order_spec_def purge_expired_def tier_entry_def getFromStorage_def
          split: option.splits)
  have same: "fst (lookup_order_spec key (removeFromStorage key t w)) = fst (lookup_order_spec key w)"
    using assms(2)
    by (cases t)
       (auto simp add: lookup_order_spec_def purge_expired_def tier_entry_def getFromStorage_def
          live_entry_def split: option.splits)
  show ?thesis using g1 g2 kept same
    by (metis prod.collapse)
qed

theorem get_malformed_record_witness:
  "memory_not_expired ''k''
      (empty_world\<lparr>sessionStorage := \<lparr>items = [(''cc:k'', Text_invalid)], quota_exceeded = False\<rparr>\<rparr>)
   \<and> getItem (storage_of Session
        (empty_world\<lparr>sessionStorage := \<lparr>items = [(''cc:k'', Text_invalid)], quota_exceeded = False\<rparr>\<rparr>))
        (STORAGE_PREFIX @ ''k'') = Some Text_invalid
   \<and> (\<exists>v w'. state_get 1 ''k''
          (empty_world\<lparr>sessionStorage := \<lparr>items = [(''cc:k'', Text_invalid)], quota_exceeded = False\<rparr>\<rparr>)
          = Inr (v, w')
        \<and> getItem (storage_of Session w') (STORAGE_PREFIX @ ''k'') = Some Text_invalid)"
proof -
  let ?w = "empty_world\<lparr>sessionStorage := \<lparr>items = [(''cc:k'', Text_invalid)], quota_exceeded = False\<rparr>\<rparr>"
  have h1: "memory_not_expired ''k'' ?w"
    by (simp add: memory_not_expired_def empty_world_def)
  have h2: "getItem (storage_of Session ?w) (STORAGE_PREFIX @ ''k'') = Some Text_invalid"
    by (simp add: getItem_def STORAGE_PREFIX_def)
  show ?thesis using h1 h2 get_malformed_record [OF h1 h2, of 0] by auto
qed

text \<open>
  Claim C4 as stated has the malformed record purged. With such a record as the only thing
  stored, \<^verbatim>\<open>get\<close> returns \<^verbatim>\<open>undefined\<close> and the state it leaves is the state it
  found, record included.
\<close>

theorem get_malformed_not_purged_counterexample:
  "state_get 1 ''k''
     (empty_world\<lparr>sessionStorage := \<lparr>items = [(''cc:k'', Text_invalid)], quota_exceeded = False\<rparr>\<rparr>)
   = Inr (Undefined,
       empty_world\<lparr>sessionStorage := \<lparr>items = [(''cc:k'', Text_invalid)], quota_exceeded = False\<rparr>\<rparr>)"
  by (simp add: empty_world_def getFromStorage_def getItem_def STORAGE_PREFIX_def empty_storage_def)

section \<open>StateStore: set and the other tiers\<close>

lemma saveToStorage_frame [simp]:
  "window (saveToStorage key s t w) = window w"
  "now (saveToStorage key s t w) = now w"
  "memoryStore (saveToStorage key s t w) = memoryStore w"
  "events (saveToStorage key s t w) = events w"
  by (cases t; simp add: saveToStorage_def setItem_def)+

lemma saveToStorage_fields [simp]:
  "sessionStorage (saveToStorage key s Local w) = sessionStorage w"
  "localStorage (saveToStorage key s Session w) = localStorage w"
  by (simp_all add: saveToStorage_def setItem_def)

lemma purge_expired_frame [simp]:
  "window (purge_expired t key w) = window w"
  "now (purge_expired t key w) = now w"
  "memoryStore (purge_expired t key w) = memoryStore w"
  "events (purge_expired t key w) = events w"
  by (simp_all add: purge_expired_def split: option.splits)

lemma purge_expired_fields [simp]:
  "sessionStorage (purge_expired Local key w) = sessionStorage w"
  "localStorage (purge_expired Session key w) = localStorage w"
  by (simp_all add: purge_expired_def split: option.splits)

lemma lookup_frame [simp]:
  "window (snd (lookup_order_spec key w)) = window w"
  "now (snd (lookup_order_spec key w)) = now w"
  "memoryStore (snd (lookup_order_spec key w)) = memoryStore w"
  "events (snd (lookup_order_spec key w)) = events w"
  by (simp_all add: lookup_order_spec_def split: option.splits)

lemma tier_entry_removeFromStorage [simp]:
  "tier_entry t' key (removeFromStorage key t w) = (if t' = t then None else tier_entry t' key w)"
  by (cases t; cases t'; simp add: tier_entry_def)

lemma lookup_keeps_unexpired:
  assumes "not_expired_in t key w"
  shows "storage_of t (snd (lookup_order_spec key w)) = storage_of t w"
  using assms
  by (cases t)
     (auto simp add: lookup_order_spec_def not_expired_in_def purge_expired_def live_entry_def
        split: option.splits if_splits)

text \<open>
  Claim C5, as amended. In a host with storage, and provided the memory map holds no expired
  entry for the key, a \<^verbatim>\<open>set\<close> with a persistent tier option returns, leaves no
  memory entry for the key, and leaves the other persistent tier as it was, its copy of the
  key included, when that copy has not expired.
\<close>

theorem set_tier_switch:
  assumes "window w" and "memory_not_expired key w"
      and "t' \<noteq> t" and "not_expired_in t' key w"
  shows "\<exists>w'. state_set (Suc (Suc depth)) key v \<lparr>persist = Some t, ttl = x\<rparr> w = Inr w'
           \<and> memoryStore w' key = None
           \<and> storage_of t' w' = storage_of t' w"
proof -
  obtain old w1 where l: "lookup_order_spec key w = (old, w1)"
    by (cases "lookup_order_spec key w")
  have g: "state_get (Suc depth) key w = Inr (old, w1)"
    using state_get_lookup [OF assms(2)] l by simp
  have win: "window w1"
    using lookup_frame(1) [of key w] l assms(1) by simp
  have keep: "storage_of t' w1 = storage_of t' w"
    using lookup_keeps_unexpired [OF assms(4)] l by simp
  show ?thesis using g win keep assms(3)
    by (cases t; cases t'; simp add: Let_def)
qed

theorem set_tier_switch_witness:
  "window world_two_copies \<and> memory_not_expired ''k'' world_two_copies
   \<and> not_expired_in Session ''k'' world_two_copies
   \<and> (\<exists>w'. state_set (Suc (Suc 0)) ''k'' (Number 9) \<lparr>persist = Some Local, ttl = None\<rparr>
               world_two_copies = Inr w'
         \<and> memoryStore w' ''k'' = None
         \<and> getItem (sessionStorage w') ''cc:k''
              = Some (Text_record \<lparr>stored_value = Number 2, expiry = None\<rparr>))"
proof -
  let ?w = world_two_copies
  have h1: "window ?w" by (simp add: world_two_copies_def empty_world_def)
  have h2: "memory_not_expired ''k'' ?w"
    by (simp add: world_two_copies_def empty_world_def memory_not_expired_def isExpired_def)
  have h3: "Session \<noteq> Local" by simp
  have h4: "not_expired_in Session ''k'' ?w"
    by (simp add: world_two_copies_def empty_world_def not_expired_in_def tier_entry_def
        getFromStorage_def getItem_def STORAGE_PREFIX_def isExpired_def)
  have s: "getItem (sessionStorage ?w) ''cc:k''
             = Some (Text_record \<lparr>stored_value = Number 2, expiry = None\<rparr>)"
    by (simp add: world_two_copies_def getItem_def)
  show ?thesis
    using h1 h2 h4 s set_tier_switch [OF h1 h2 h3 h4, of 0 "Number 9" None]
    by auto
qed

text \<open>
  Claim C5 as stated has every \<^verbatim>\<open>set\<close> with a persistent tier option delete the memory
  copy and leave the other persistent tier unchanged. Without a \<^verbatim>\<open>window\<close>,
  \<^verbatim>\<open>set("k", 9, { persist: "local" })\<close> has no storage to write to and stores the
  value in the memory map, over the copy that was there. And with a \<^verbatim>\<open>window\<close>, when
  the session storage holds an expired record of the key, the same call removes that record:
  \<^verbatim>\<open>set\<close> starts with \<^verbatim>\<open>this.get(key)\<close>, which purges the expired records it
  meets.
\<close>

theorem set_tier_switch_counterexample:
  "(\<exists>w'. state_set (Suc (Suc 0)) ''k'' (Number 9) \<lparr>persist = Some Local, ttl = None\<rparr>
            (world_no_window\<lparr>memoryStore := [''k'' \<mapsto> \<lparr>stored_value = Number 1, expiry = None\<rparr>]\<rparr>)
          = Inr w'
        \<and> memoryStore w' ''k'' = Some \<lparr>stored_value = Number 9, expiry = None\<rparr>)
   \<and> (\<exists>w'. state_set (Suc (Suc 0)) ''k'' (Number 9) \<lparr>persist = Some Local, ttl = None\<rparr>
            (empty_world\<lparr>now := 10,
               sessionStorage :=
                 \<lparr>items = [(''cc:k'', Text_record \<lparr>stored_value = Number 2, expiry = Some 5\<rparr>)],
                  quota_exceeded = False\<rparr>\<rparr>)
          = Inr w'
        \<and> getItem (sessionStorage w') ''cc:k'' = None
        \<and> getItem (sessionStorage
              (empty_world\<lparr>now := 10,
                 sessionStorage :=
                   \<lparr>items = [(''cc:k'', Text_record \<lparr>stored_value = Number 2, expiry = Some 5\<rparr>)],
                    quota_exceeded = False\<rparr>\<rparr>)) ''cc:k''
            = Some (Text_record \<lparr>stored_value = Number 2, expiry = Some 5\<rparr>))"
  by (simp add: world_no_window_def empty_world_def empty_storage_def getStorage_def
      events_emit_def new_bus_def isExpired_def Let_def getFromStorage_def getItem_def
      STORAGE_PREFIX_def removeFromStorage_def removeItem_def saveToStorage_def setItem_def
      JSON_stringify_def)

section \<open>StateStore: clear and remove\<close>

lemma fold_removeItem_getItem:
  "getItem (fold (\<lambda>k s. removeItem s k) ks st) k = (if k \<in> set ks then None else getItem st k)"
  by (induction ks arbitrary: st) auto

lemma getItem_in_keys:
  "getItem st k \<noteq> None \<Longrightarrow> k \<in> fst ` set (items st)"
  by (auto simp add: getItem_def dest: map_of_SomeD intro: rev_image_eqI)

lemma clear_storage_getItem:
  "getItem (clear_storage st) k = (if startsWith k STORAGE_PREFIX then None else getItem st k)"
proof (cases "getItem st k")
  case None
  then show ?thesis by (simp add: clear_storage_def fold_removeItem_getItem)
next
  case (Some r)
  then have "k \<in> fst ` set (items st)" using getItem_in_keys [of st k] by simp
  then show ?thesis by (auto simp add: clear_storage_def fold_removeItem_getItem)
qed

lemma startsWith_prefix [simp]: "startsWith (STORAGE_PREFIX @ key) STORAGE_PREFIX"
  by (simp add: startsWith_def)

lemma getFromStorage_clear_storage [simp]:
  "getFromStorage key (clear_storage st) = None"
  by (simp add: getFromStorage_def clear_storage_getItem)

lemma state_clear_fields:
  "memoryStore (state_clear w) = Map.empty"
  "events (state_clear w) = events w"
  "window (state_clear w) = window w"
  "window w \<Longrightarrow> sessionStorage (state_clear w) = clear_storage (sessionStorage w)"
  "window w \<Longrightarrow> localStorage (state_clear w) = clear_storage (localStorage w)"
  by (simp_all add: state_clear_def)

lemma get_after_clear:
  "state_get (Suc depth) key (state_clear w) = Inr (Undefined, state_clear w)"
proof (cases "window w")
  case True
  then show ?thesis by (simp add: state_clear_fields)
next
  case False
  then show ?thesis by (simp add: state_clear_fields)
qed

lemma remove_persistent_fields:
  "memoryStore (remove_persistent [Session, Local] key w) = memoryStore w"
  "events (remove_persistent [Session, Local] key w) = events w"
  "window (remove_persistent [Session, Local] key w) = window w"
  "now (remove_persistent [Session, Local] key w) = now w"
  "window w \<Longrightarrow> getItem (sessionStorage (remove_persistent [Session, Local] key w))
                    (STORAGE_PREFIX @ key) = None"
  "window w \<Longrightarrow> getItem (localStorage (remove_persistent [Session, Local] key w))
                    (STORAGE_PREFIX @ key) = None"
  by simp_all

lemma remove_present:
  assumes "state_get (Suc depth) key w = Inr (old, w1)" and "old \<noteq> Undefined"
  shows "\<exists>w'. state_remove (Suc (Suc depth)) key w = Inr w'
           \<and> memoryStore w' key = None
           \<and> (window w \<longrightarrow> getItem (sessionStorage w') (STORAGE_PREFIX @ key) = None
                          \<and> getItem (localStorage w') (STORAGE_PREFIX @ key) = None)
           \<and> events w' = events_emit (''state:'' @ key) (Change Undefined old) (events w)
           \<and> state_get (Suc depth) key w' = Inr (Undefined, w')"
proof (cases "memory_not_expired key w")
  case False
  then obtain mem where "memoryStore w key = Some mem" "isExpired (now w) mem"
    by (auto simp add: memory_not_expired_def split: option.splits)
  then have "state_get (Suc depth) key w = Inl RangeError"
    using expired_memory_overflows by blast
  then show ?thesis using assms by simp
next
  case True
  have l: "lookup_order_spec key w = (old, w1)"
    using state_get_lookup [OF True, of depth] assms(1) by simp
  have f: "window w1 = window w" "events w1 = events w"
    using lookup_frame [of key w] l by simp_all
  let ?w2 = "w1\<lparr>memoryStore := (memoryStore w1)(key := None)\<rparr>"
  let ?w3 = "remove_persistent [Session, Local] key ?w2"
  let ?w' = "?w3\<lparr>events := events_emit (''state:'' @ key) (Change Undefined old) (events ?w3)\<rparr>"
  have r: "state_remove (Suc (Suc depth)) key w = Inr ?w'"
    using assms by (simp add: Let_def)
  have m: "memoryStore ?w' key = None" by simp
  have s: "window w \<longrightarrow> getItem (sessionStorage ?w') (STORAGE_PREFIX @ key) = None
                          \<and> getItem (localStorage ?w') (STORAGE_PREFIX @ key) = None"
    using f by simp
  have e: "events ?w' = events_emit (''state:'' @ key) (Change Undefined old) (events w)"
    using f by simp
  have g: "state_get (Suc depth) key ?w' = Inr (Undefined, ?w')"
    by (simp add: getFromStorage_def)
  show ?thesis using r m s e g by blast
qed

lemma remove_absent:
  assumes "state_get (Suc depth) key w = Inr (Undefined, w1)"
  shows "state_remove (Suc (Suc depth)) key w = Inr w1 \<and> events w1 = events w"
proof (cases "memory_not_expired key w")
  case False
  then obtain mem where "memoryStore w key = Some mem" "isExpired (now w) mem"
    by (auto simp add: memory_not_expired_def split: option.splits)
  then have "state_get (Suc depth) key w = Inl RangeError"
    using expired_memory_overflows by blast
  then show ?thesis using assms by simp
next
  case True
  have l: "lookup_order_spec key w = (Undefined, w1)"
    using state_get_lookup [OF True, of depth] assms(1) by simp
  have "events w1 = events w"
    using lookup_frame [of key w] l by simp
  then show ?thesis using assms by simp
qed

text \<open>
  \<^verbatim>\<open>clear\<close> leaves the bus as it was (no listener is called), the memory map empty and
  no prefixed item in either storage, and \<^verbatim>\<open>get\<close> of any key then returns
  \<^verbatim>\<open>undefined\<close>. When \<^verbatim>\<open>get\<close> of a key returns a value, \<^verbatim>\<open>remove\<close> deletes
  the key from memory and from both storages and emits once, on the key's change event, with
  the new value \<^verbatim>\<open>undefined\<close> and the old value. When \<^verbatim>\<open>get\<close> of a key returns
  \<^verbatim>\<open>undefined\<close>, \<^verbatim>\<open>remove\<close> returns the state the lookup left, with the bus
  untouched.
\<close>

lemma clear_and_remove:
  "events (state_clear w) = events w
   \<and> memoryStore (state_clear w) = Map.empty
   \<and> (window w \<longrightarrow>
        getItem (sessionStorage (state_clear w)) (STORAGE_PREFIX @ k) = None
        \<and> getItem (localStorage (state_clear w)) (STORAGE_PREFIX @ k) = None)
   \<and> state_get (Suc depth) k (state_clear w) = Inr (Undefined, state_clear w)
   \<and> (old \<noteq> Undefined \<and> state_get (Suc depth) key w = Inr (old, w1) \<longrightarrow>
        (\<exists>w'. state_remove (Suc (Suc depth)) key w = Inr w'
           \<and> memoryStore w' key = None
           \<and> (window w \<longrightarrow> getItem (sessionStorage w') (STORAGE_PREFIX @ key) = None
                          \<and> getItem (localStorage w') (STORAGE_PREFIX @ key) = None)
           \<and> events w' = events_emit (''state:'' @ key) (Change Undefined old) (events w)
           \<and> state_get (Suc depth) key w' = Inr (Undefined, w')))
   \<and> (state_get (Suc depth) key w = Inr (Undefined, w2) \<longrightarrow>
        state_remove (Suc (Suc depth)) key w = Inr w2 \<and> events w2 = events w)"
proof -
  have c: "window w \<longrightarrow>
        getItem (sessionStorage (state_clear w)) (STORAGE_PREFIX @ k) = None
        \<and> getItem (localStorage (state_clear w)) (STORAGE_PREFIX @ k) = None"
    by (simp add: state_clear_fields clear_storage_getItem)
  have p: "old \<noteq> Undefined \<and> state_get (Suc depth) key w = Inr (old, w1) \<longrightarrow>
        (\<exists>w'. state_remove (Suc (Suc depth)) key w = Inr w'
           \<and> memoryStore w' key = None
           \<and> (window w \<longrightarrow> getItem (sessionStorage w') (STORAGE_PREFIX @ key) = None
                          \<and> getItem (localStorage w') (STORAGE_PREFIX @ key) = None)
           \<and> events w' = events_emit (''state:'' @ key) (Change Undefined old) (events w)
           \<and> state_get (Suc depth) key w' = Inr (Undefined, w'))"
    using remove_present [of depth key w old w1] by blast
  have a: "state_get (Suc depth) key w = Inr (Undefined, w2) \<longrightarrow>
        state_remove (Suc (Suc depth)) key w = Inr w2 \<and> events w2 = events w"
    using remove_absent [of depth key w w2] by blast
  show ?thesis
    using c p a get_after_clear [of depth k w] state_clear_fields(1,2) [of w] by blast
qed

lemma clear_and_remove_example:
  "state_get (Suc 0) ''a'' world_with_listener = Inr (Number 1, world_with_listener)
   \<and> (\<exists>w'. state_remove (Suc (Suc 0)) ''a'' world_with_listener = Inr w'
         \<and> invoked (events w') = [(Callback 0, Change Undefined (Number 1))]
         \<and> state_get (Suc 0) ''a'' w' = Inr (Undefined, w'))
   \<and> state_get (Suc 0) ''missing'' world_with_listener = Inr (Undefined, world_with_listener)
   \<and> state_remove (Suc (Suc 0)) ''missing'' world_with_listener = Inr world_with_listener
   \<and> invoked (events (state_clear world_with_listener)) = []
   \<and> state_get (Suc 0) ''a'' (state_clear world_with_listener)
       = Inr (Undefined, state_clear world_with_listener)"
proof -
  let ?w = world_with_listener
  have g1: "state_get (Suc 0) ''a'' ?w = Inr (Number 1, ?w)"
    by (simp add: world_with_listener_def empty_world_def isExpired_def)
  have g2: "state_get (Suc 0) ''missing'' ?w = Inr (Undefined, ?w)"
    by (simp add: world_with_listener_def empty_world_def empty_storage_def getFromStorage_def
        getItem_def)
  have e: "invoked (events_emit ''state:a'' (Change Undefined (Number 1)) (events ?w))
             = [(Callback 0, Change Undefined (Number 1))]"
    by (simp add: world_with_listener_def empty_world_def events_emit_def events_on_def
        new_bus_def listeners_def set_add_def Let_def)
  have i: "invoked (events ?w) = []"
    by (simp add: world_with_listener_def empty_world_def events_on_def new_bus_def Let_def)
  note t = clear_and_remove
    [of ?w "''a''" 0 "Number 1" "''a''" ?w ?w]
  note u = clear_and_remove
    [of ?w "''a''" 0 "Number 1" "''missing''" ?w ?w]
  show ?thesis using g1 g2 e i t u by auto
qed

text \<open>
  Claim C9. \<^verbatim>\<open>clear\<close> purges every entry and emits nothing; \<^verbatim>\<open>remove\<close> of a
  present key deletes it from every tier and emits one change event; \<^verbatim>\<open>remove\<close> of an
  absent key is a no-op that emits nothing and does not throw. The code does not do the last
  for a key whose only entry is an expired one in the memory map: the key is absent, and
  \<^verbatim>\<open>remove\<close> starts with \<^verbatim>\<open>this.get(key)\<close>, which finds the expired entry and
  calls \<^verbatim>\<open>this.remove(key)\<close> while the entry is still in the map. The two call each
  other without end: \<^verbatim>\<open>remove\<close> ends in \<^verbatim>\<open>RangeError\<close>, whatever the bound on
  the nesting, and so does \<^verbatim>\<open>has\<close>.
\<close>

theorem remove_expired_memory_throws:
  "state_remove depth ''k''
     (empty_world\<lparr>now := 10,
        memoryStore := [''k'' \<mapsto> \<lparr>stored_value = Number 1, expiry = Some 5\<rparr>]\<rparr>)
   = Inl RangeError
   \<and> state_has depth ''k''
     (empty_world\<lparr>now := 10,
        memoryStore := [''k'' \<mapsto> \<lparr>stored_value = Number 1, expiry = Some 5\<rparr>]\<rparr>)
   = Inl RangeError"
proof -
  let ?w = "empty_world\<lparr>now := 10,
        memoryStore := [''k'' \<mapsto> \<lparr>stored_value = Number 1, expiry = Some 5\<rparr>]\<rparr>"
  have m: "memoryStore ?w ''k'' = Some \<lparr>stored_value = Number 1, expiry = Some 5\<rparr>"
    by simp
  have e: "isExpired (now ?w) \<lparr>stored_value = Number 1, expiry = Some 5\<rparr>"
    by (simp add: isExpired_def)
  have g: "\<And>d. state_get d ''k'' ?w = Inl RangeError"
    using expired_memory_overflows [OF m e] by blast
  have r: "state_remove depth ''k'' ?w = Inl RangeError"
    using expired_memory_overflows [OF m e, of depth] by blast
  have h: "state_has depth ''k'' ?w = Inl RangeError"
    using g by (cases depth) simp_all
  show ?thesis using r h by blast
qed

section \<open>StateStore: a host without storage\<close>

lemma lookup_no_window:
  assumes "\<not> window w"
  shows "lookup_order_spec key w
           = (case memoryStore w key of
                None \<Rightarrow> Undefined
              | Some m \<Rightarrow> if isExpired (now w) m then Undefined else stored_value m, w)"
  using assms
  by (simp add: lookup_order_spec_def live_entry_def tier_entry_def purge_expired_def
      split: option.splits)

text \<open>
  Claim C6, as amended. Without a \<^verbatim>\<open>window\<close> both persistent tiers read as absent,
  whatever they hold, and a \<^verbatim>\<open>set\<close> directed at a persistent tier stores the entry in
  the memory tier and leaves both storages alone; \<^verbatim>\<open>get\<close>, \<^verbatim>\<open>set\<close>,
  \<^verbatim>\<open>has\<close> and \<^verbatim>\<open>remove\<close> return without throwing, provided the memory map holds
  no expired entry for the key.
\<close>

theorem no_window_degradation:
  assumes "\<not> window w" and "memory_not_expired key w"
  shows "state_get (Suc depth) key w
           = Inr (case memoryStore w key of None \<Rightarrow> Undefined | Some m \<Rightarrow> stored_value m, w)
       \<and> (\<exists>w' e. state_set (Suc (Suc depth)) key v opts w = Inr w'
             \<and> memoryStore w' = (memoryStore w)(key \<mapsto> \<lparr>stored_value = v, expiry = e\<rparr>)
             \<and> sessionStorage w' = sessionStorage w \<and> localStorage w' = localStorage w)
       \<and> (\<exists>r. state_has (Suc (Suc depth)) key w = Inr r)
       \<and> (\<exists>w'. state_remove (Suc (Suc depth)) key w = Inr w')"
proof -
  have g: "state_get (Suc depth) key w
             = Inr (case memoryStore w key of None \<Rightarrow> Undefined | Some m \<Rightarrow> stored_value m, w)"
    using state_get_lookup [OF assms(2), of depth] lookup_no_window [OF assms(1), of key] assms(2)
    by (simp add: memory_not_expired_def split: option.splits)
  have s: "\<exists>w' e. state_set (Suc (Suc depth)) key v opts w = Inr w'
             \<and> memoryStore w' = (memoryStore w)(key \<mapsto> \<lparr>stored_value = v, expiry = e\<rparr>)
             \<and> sessionStorage w' = sessionStorage w \<and> localStorage w' = localStorage w"
  proof -
    let ?e = "case ttl opts of None \<Rightarrow> None
              | Some t \<Rightarrow> if t \<noteq> 0 then Some (now w + t) else None"
    let ?old = "case memoryStore w key of None \<Rightarrow> Undefined | Some m \<Rightarrow> stored_value m"
    let ?w' = "w\<lparr>memoryStore := (memoryStore w)(key \<mapsto> \<lparr>stored_value = v, expiry = ?e\<rparr>),
                 events := events_emit (''state:'' @ key) (Change v ?old) (events w)\<rparr>"
    have "state_set (Suc (Suc depth)) key v opts w = Inr ?w'"
      using g assms(1) by (simp add: getStorage_def Let_def)
    moreover have "memoryStore ?w' = (memoryStore w)(key \<mapsto> \<lparr>stored_value = v, expiry = ?e\<rparr>)"
      by simp
    moreover have "sessionStorage ?w' = sessionStorage w \<and> localStorage ?w' = localStorage w"
      by simp
    ultimately show ?thesis by blast
  qed
  have h: "\<exists>r. state_has (Suc (Suc depth)) key w = Inr r"
    using g by simp
  have r: "\<exists>w'. state_remove (Suc (Suc depth)) key w = Inr w'"
    using g by (simp add: Let_def)
  show ?thesis using g s h r by blast
qed

theorem no_window_degradation_witness:
  "\<not> window world_no_window \<and> memory_not_expired ''k'' world_no_window
   \<and> state_get (Suc 0) ''k'' world_no_window = Inr (Undefined, world_no_window)
   \<and> (\<exists>w' e. state_set (Suc (Suc 0)) ''k'' (Number 1) \<lparr>persist = Some Session, ttl = Some 5\<rparr>
                 world_no_window = Inr w'
         \<and> memoryStore w' ''k'' = Some \<lparr>stored_value = Number 1, expiry = e\<rparr>
         \<and> sessionStorage w' = sessionStorage world_no_window)"
proof -
  let ?w = world_no_window
  have h1: "\<not> window ?w" by (simp add: world_no_window_def empty_world_def)
  have h2: "memory_not_expired ''k'' ?w"
    by (simp add: world_no_window_def empty_world_def memory_not_expired_def)
  have m: "memoryStore ?w ''k'' = None" by (simp add: world_no_window_def empty_world_def)
  show ?thesis
    using h1 h2 m
      no_window_degradation [OF h1 h2, of 0 "Number 1" "\<lparr>persist = Some Session, ttl = Some 5\<rparr>"]
    by auto
qed

text \<open>
  Claim C6 as stated has the write dropped. Without a \<^verbatim>\<open>window\<close>,
  \<^verbatim>\<open>set("k", 1, { persist: "local" })\<close> puts the entry in the memory map and a
  \<^verbatim>\<open>get\<close> returns it.
\<close>

theorem no_window_write_counterexample:
  "state_set (Suc (Suc 0)) ''k'' (Number 1) \<lparr>persist = Some Local, ttl = None\<rparr> world_no_window
     = Inr (world_no_window\<lparr>memoryStore := [''k'' \<mapsto> \<lparr>stored_value = Number 1, expiry = None\<rparr>]\<rparr>)
   \<and> state_get (Suc 0) ''k''
       (world_no_window\<lparr>memoryStore := [''k'' \<mapsto> \<lparr>stored_value = Number 1, expiry = None\<rparr>]\<rparr>)
     = Inr (Number 1,
         world_no_window\<lparr>memoryStore := [''k'' \<mapsto> \<lparr>stored_value = Number 1, expiry = None\<rparr>]\<rparr>)"
  by (simp add: world_no_window_def empty_world_def getStorage_def events_emit_def new_bus_def
      isExpired_def Let_def)

section \<open>StateStore: storing undefined\<close>

lemma storage_of_updates [simp]:
  "storage_of t (w\<lparr>memoryStore := m\<rparr>) = storage_of t w"
  "storage_of t (w\<lparr>events := e\<rparr>) = storage_of t w"
  by (cases t; simp)+

lemma tier_entry_updates [simp]:
  "tier_entry t key (w\<lparr>memoryStore := m\<rparr>) = tier_entry t key w"
  "tier_entry t key (w\<lparr>events := e\<rparr>) = tier_entry t key w"
  by (simp_all add: tier_entry_def)

lemma tier_entry_saveToStorage_same:
  assumes "window w" and "\<not> quota_exceeded (storage_of t w)"
  shows "tier_entry t key (saveToStorage key s t w) = Some s"
  using assms
  by (cases t)
     (simp_all add: tier_entry_def saveToStorage_def setItem_def getFromStorage_def getItem_def
        update_conv' JSON_stringify_def)

lemma tier_entry_saveToStorage_other:
  assumes "t' \<noteq> t"
  shows "tier_entry t' key (saveToStorage key s t w) = tier_entry t' key w"
  using assms by (cases t; cases t'; simp add: tier_entry_def)

lemma lookup_session_still_not_live:
  assumes "live_entry (now w) (tier_entry Session key w) = None"
  shows "live_entry (now w) (tier_entry Session key (snd (lookup_order_spec key w))) = None"
  using assms
  by (auto simp add: lookup_order_spec_def purge_expired_def live_entry_def
      split: option.splits if_splits)

lemma lookup_quota [simp]:
  "quota_exceeded (storage_of t (snd (lookup_order_spec key w))) = quota_exceeded (storage_of t w)"
  by (cases t)
     (auto simp add: lookup_order_spec_def purge_expired_def removeItem_def
        split: option.splits)

lemma absent_reads:
  assumes "memory_not_expired key w1" and "fst (lookup_order_spec key w1) = Undefined"
  shows "state_get (Suc depth) key w1 = Inr (Undefined, snd (lookup_order_spec key w1))
       \<and> state_has (Suc (Suc depth)) key w1 = Inr (False, snd (lookup_order_spec key w1))
       \<and> state_remove (Suc (Suc depth)) key w1 = Inr (snd (lookup_order_spec key w1))"
proof -
  have "state_get (Suc depth) key w1 = Inr (Undefined, snd (lookup_order_spec key w1))"
    using state_get_lookup [OF assms(1), of depth] assms(2)
    by (metis prod.collapse)
  then show ?thesis by simp
qed

lemma set_result:
  assumes "memory_not_expired key w"
  shows "state_set (Suc (Suc depth)) key v options w =
     Inr (let old = fst (lookup_order_spec key w); w1 = snd (lookup_order_spec key w);
              s = \<lparr>stored_value = v,
                   expiry = (case ttl options of None \<Rightarrow> None
                             | Some t \<Rightarrow> if t \<noteq> 0 then Some (now w + t) else None)\<rparr>;
              w2 = (case getStorage (persist options) w1 of
                      Some t \<Rightarrow> (saveToStorage key s t w1)\<lparr>memoryStore :=
                                   (memoryStore (saveToStorage key s t w1))(key := None)\<rparr>
                    | None \<Rightarrow> w1\<lparr>memoryStore := (memoryStore w1)(key \<mapsto> s)\<rparr>)
          in w2\<lparr>events := events_emit (''state:'' @ key) (Change v old) (events w2)\<rparr>)"
proof -
  obtain old w0 where l: "lookup_order_spec key w = (old, w0)"
    by (cases "lookup_order_spec key w")
  have n: "now w0 = now w"
    using lookup_frame(2) [of key w] l by simp
  have g: "state_get (Suc depth) key w = Inr (old, w0)"
    using state_get_lookup [OF assms, of depth] l by simp
  show ?thesis
    using g n l by (simp add: Let_def split: option.splits)
qed

lemma getStorage_lookup [simp]:
  "getStorage p (snd (lookup_order_spec key w)) = getStorage p w"
  by (simp add: getStorage_def)

lemma fresh_record_live:
  assumes "case x of None \<Rightarrow> True | Some t \<Rightarrow> 0 \<le> t"
  shows "\<not> isExpired n \<lparr>stored_value = v,
            expiry = (case x of None \<Rightarrow> None | Some t \<Rightarrow> if t \<noteq> 0 then Some (n + t) else None)\<rparr>"
  using assms by (simp add: isExpired_def split: option.splits)

lemma undefined_write_reads:
  assumes w0: "now w0 = now w" "window w0 = window w"
      and vis: "undefined_write_visible options key w"
      and q0: "\<And>t. quota_exceeded (storage_of t w0) = quota_exceeded (storage_of t w)"
      and s0: "live_entry (now w) (tier_entry Session key w) = None
                 \<Longrightarrow> live_entry (now w) (tier_entry Session key w0) = None"
      and w1: "w1 = (let s = \<lparr>stored_value = Undefined,
                   expiry = (case ttl options of None \<Rightarrow> None
                             | Some t \<Rightarrow> if t \<noteq> 0 then Some (now w + t) else None)\<rparr>;
              w2 = (case getStorage (persist options) w of
                      Some t \<Rightarrow> (saveToStorage key s t w0)\<lparr>memoryStore :=
                                   (memoryStore (saveToStorage key s t w0))(key := None)\<rparr>
                    | None \<Rightarrow> w0\<lparr>memoryStore := (memoryStore w0)(key \<mapsto> s)\<rparr>)
          in w2\<lparr>events := events_emit (''state:'' @ key) (Change Undefined old) (events w2)\<rparr>)"
  shows "\<exists>w2. state_get (Suc depth) key w1 = Inr (Undefined, w2)
           \<and> state_has (Suc (Suc depth)) key w1 = Inr (False, w2)
           \<and> state_remove (Suc (Suc depth)) key w1 = Inr w2
           \<and> events w2 = events w1 \<and> memoryStore w2 = memoryStore w1
           \<and> (case getStorage (persist options) w of
                 None \<Rightarrow> map_option stored_value (memoryStore w2 key) = Some Undefined
               | Some t \<Rightarrow> map_option stored_value (tier_entry t key w2) = Some Undefined)"
proof -
  let ?s = "\<lparr>stored_value = Undefined,
             expiry = (case ttl options of None \<Rightarrow> None
                       | Some t \<Rightarrow> if t \<noteq> 0 then Some (now w + t) else None)\<rparr>"
  have live: "\<not> isExpired (now w) ?s"
    using vis fresh_record_live [of "ttl options" "now w" Undefined]
    by (simp add: undefined_write_visible_def)
  show ?thesis
  proof (cases "getStorage (persist options) w")
    case None
    have n1: "now w1 = now w" "memoryStore w1 key = Some ?s"
      using w1 None w0 by (simp_all add: Let_def)
    have m: "memory_not_expired key w1"
      using live n1 by (simp add: memory_not_expired_def)
    have l: "lookup_order_spec key w1 = (Undefined, w1)"
      using live n1 by (simp add: lookup_order_spec_def live_entry_def)
    have "state_get (Suc depth) key w1 = Inr (Undefined, w1)
        \<and> state_has (Suc (Suc depth)) key w1 = Inr (False, w1)
        \<and> state_remove (Suc (Suc depth)) key w1 = Inr w1"
      using absent_reads [OF m, of depth] l by simp
    moreover have "map_option stored_value (memoryStore w1 key) = Some Undefined"
      using n1 by simp
    ultimately show ?thesis using None by auto
  next
    case (Some t)
    have win: "window w"
      using Some by (simp add: getStorage_def split: if_splits)
    have q: "\<not> quota_exceeded (storage_of t w0)"
      using vis Some q0 [of t] by (cases t) (simp_all add: undefined_write_visible_def)
    have n1: "now w1 = now w" "memoryStore w1 key = None" "window w1"
      using w1 Some w0 win by (simp_all add: Let_def)
    have m: "memory_not_expired key w1"
      using n1 by (simp add: memory_not_expired_def)
    have te: "tier_entry t key w1 = Some ?s"
      using tier_entry_saveToStorage_same [of w0 t key ?s] win q w0 w1 Some
      by (simp add: Let_def)
    have sess: "t = Local \<Longrightarrow> live_entry (now w) (tier_entry Session key w1) = None"
    proof -
      assume tl: "t = Local"
      have "live_entry (now w) (tier_entry Session key w) = None"
        using vis Some tl by (simp add: undefined_write_visible_def)
      then have "live_entry (now w) (tier_entry Session key w0) = None"
        by (rule s0)
      then show ?thesis using tl w1 Some
        by (simp add: tier_entry_saveToStorage_other Let_def)
    qed
    have l: "fst (lookup_order_spec key w1) = Undefined"
    proof (cases t)
      case Session
      then show ?thesis using te live n1
        by (simp add: lookup_order_spec_def live_entry_def)
    next
      case Local
      then show ?thesis using te live n1 sess
        by (simp add: lookup_order_spec_def live_entry_def)
    qed
    let ?w3 = "snd (lookup_order_spec key w1)"
    have reads: "state_get (Suc depth) key w1 = Inr (Undefined, ?w3)
        \<and> state_has (Suc (Suc depth)) key w1 = Inr (False, ?w3)
        \<and> state_remove (Suc (Suc depth)) key w1 = Inr ?w3"
      using absent_reads [OF m l, of depth] .
    have fr: "events ?w3 = events w1 \<and> memoryStore ?w3 = memoryStore w1"
      using lookup_frame [of key w1] by simp
    have kept: "tier_entry t key ?w3 = Some ?s"
    proof (cases t)
      case Session
      then show ?thesis using te live n1
        by (simp add: lookup_order_spec_def live_entry_def)
    next
      case Local
      then show ?thesis using te live n1 sess
        by (auto simp add: lookup_order_spec_def live_entry_def purge_expired_def
            split: option.splits if_splits)
    qed
    have "map_option stored_value (tier_entry t key ?w3) = Some Undefined"
      using kept by simp
    then show ?thesis using reads fr Some by auto
  qed
qed

text \<open>
  Claim C10, as amended. After \<^verbatim>\<open>set(key, undefined, options)\<close> whose record is the one
  the next lookup meets (\<open>undefined_write_visible\<close>: written to memory, to the session
  storage, or to the local storage while the session storage holds no live entry for the
  key), \<^verbatim>\<open>get\<close> returns \<^verbatim>\<open>undefined\<close>, \<^verbatim>\<open>has\<close> returns \<^verbatim>\<open>false\<close>,
  and \<^verbatim>\<open>remove\<close> takes its first branch: it returns the state the lookup left, with
  the bus and the memory map untouched and the record still in its store.
\<close>

theorem set_undefined_is_absent:
  assumes "memory_not_expired key w" and "undefined_write_visible options key w"
  shows "\<exists>w1 w2. state_set (Suc (Suc depth)) key Undefined options w = Inr w1
           \<and> state_get (Suc depth) key w1 = Inr (Undefined, w2)
           \<and> state_has (Suc (Suc depth)) key w1 = Inr (False, w2)
           \<and> state_remove (Suc (Suc depth)) key w1 = Inr w2
           \<and> events w2 = events w1 \<and> memoryStore w2 = memoryStore w1
           \<and> (case getStorage (persist options) w of
                 None \<Rightarrow> map_option stored_value (memoryStore w2 key) = Some Undefined
               | Some t \<Rightarrow> map_option stored_value (tier_entry t key w2) = Some Undefined)"
proof -
  obtain old w0 where l: "lookup_order_spec key w = (old, w0)"
    by (cases "lookup_order_spec key w")
  have f: "now w0 = now w" "window w0 = window w"
    using lookup_frame [of key w] l by simp_all
  have q0: "\<And>t. quota_exceeded (storage_of t w0) = quota_exceeded (storage_of t w)"
    using lookup_quota [of _ key w] l by simp
  have s0: "live_entry (now w) (tier_entry Session key w) = None
                 \<Longrightarrow> live_entry (now w) (tier_entry Session key w0) = None"
    using lookup_session_still_not_live [of w key] l by simp
  define w1 where "w1 = (let s = \<lparr>stored_value = Undefined,
                   expiry = (case ttl options of None \<Rightarrow> None
                             | Some t \<Rightarrow> if t \<noteq> 0 then Some (now w + t) else None)\<rparr>;
              w2 = (case getStorage (persist options) w of
                      Some t \<Rightarrow> (saveToStorage key s t w0)\<lparr>memoryStore :=
                                   (memoryStore (saveToStorage key s t w0))(key := None)\<rparr>
                    | None \<Rightarrow> w0\<lparr>memoryStore := (memoryStore w0)(key \<mapsto> s)\<rparr>)
          in w2\<lparr>events := events_emit (''state:'' @ key) (Change Undefined old) (events w2)\<rparr>)"
  have gs: "getStorage (persist options) w0 = getStorage (persist options) w"
    using getStorage_lookup [of "persist options" key w] l by simp
  have set: "state_set (Suc (Suc depth)) key Undefined options w = Inr w1"
    using set_result [OF assms(1), of depth Undefined options] l gs
    by (simp add: w1_def Let_def del: state_set.simps)
  show ?thesis
    using undefined_write_reads [OF f assms(2) q0 s0 w1_def, of depth] set by blast
qed

theorem set_undefined_is_absent_witness:
  "memory_not_expired ''k'' empty_world
   \<and> undefined_write_visible \<lparr>persist = Some Session, ttl = Some 5\<rparr> ''k'' empty_world
   \<and> (\<exists>w1 w2. state_set (Suc (Suc 0)) ''k'' Undefined \<lparr>persist = Some Session, ttl = Some 5\<rparr>
                   empty_world = Inr w1
          \<and> state_get (Suc 0) ''k'' w1 = Inr (Undefined, w2)
          \<and> state_has (Suc (Suc 0)) ''k'' w1 = Inr (False, w2)
          \<and> state_remove (Suc (Suc 0)) ''k'' w1 = Inr w2
          \<and> map_option stored_value (tier_entry Session ''k'' w2) = Some Undefined)"
proof -
  have h1: "memory_not_expired ''k'' empty_world"
    by (simp add: memory_not_expired_def empty_world_def)
  have h2: "undefined_write_visible \<lparr>persist = Some Session, ttl = Some 5\<rparr> ''k'' empty_world"
    by (simp add: undefined_write_visible_def getStorage_def empty_world_def empty_storage_def)
  have g: "getStorage (persist \<lparr>persist = Some Session, ttl = Some 5\<rparr>) empty_world = Some Session"
    by (simp add: getStorage_def empty_world_def)
  show ?thesis
    using h1 h2 g set_undefined_is_absent [OF h1 h2, of 0]
    by (auto simp del: state_set.simps state_get.simps state_remove.simps state_has.simps)
qed

text \<open>
  Claim C10 as stated holds for any tier. With a live entry for the key in the session
  storage, \<^verbatim>\<open>set("k", undefined, { persist: "local" })\<close> writes the local record, and
  \<^verbatim>\<open>get\<close> still returns the session value and \<^verbatim>\<open>has\<close> returns \<^verbatim>\<open>true\<close>.
\<close>

theorem set_undefined_shadowed_counterexample:
  "state_set (Suc (Suc 0)) ''k'' Undefined \<lparr>persist = Some Local, ttl = None\<rparr> world_session_copy
     = Inr (world_session_copy\<lparr>localStorage :=
              \<lparr>items = [(''cc:k'', Text_record \<lparr>stored_value = Undefined, expiry = None\<rparr>)],
               quota_exceeded = False\<rparr>\<rparr>)
   \<and> state_get (Suc 0) ''k''
        (world_session_copy\<lparr>localStorage :=
              \<lparr>items = [(''cc:k'', Text_record \<lparr>stored_value = Undefined, expiry = None\<rparr>)],
               quota_exceeded = False\<rparr>\<rparr>)
     = Inr (Number 5,
        world_session_copy\<lparr>localStorage :=
              \<lparr>items = [(''cc:k'', Text_record \<lparr>stored_value = Undefined, expiry = None\<rparr>)],
               quota_exceeded = False\<rparr>\<rparr>)
   \<and> state_has (Suc (Suc 0)) ''k''
        (world_session_copy\<lparr>localStorage :=
              \<lparr>items = [(''cc:k'', Text_record \<lparr>stored_value = Undefined, expiry = None\<rparr>)],
               quota_exceeded = False\<rparr>\<rparr>)
     = Inr (True,
        world_session_copy\<lparr>localStorage :=
              \<lparr>items = [(''cc:k'', Text_record \<lparr>stored_value = Undefined, expiry = None\<rparr>)],
               quota_exceeded = False\<rparr>\<rparr>)"
  by (simp add: world_session_copy_def empty_world_def empty_storage_def getStorage_def
      getFromStorage_def getItem_def STORAGE_PREFIX_def isExpired_def saveToStorage_def
      setItem_def JSON_stringify_def events_emit_def new_bus_def Let_def)

section \<open>Resource-backed subscriptions: one count per resource\<close>



lemma parse_item: "parse_resource ''resource:posts:update:42'' = Some (Item ''posts'' ''42'')"
  by (simp add: parse_resource_def)

lemma parse_custom: "parse_resource ''auth:login'' = None"
  by (simp add: parse_resource_def)





























section \<open>Resource-backed subscriptions: unsubscribing while the enable is pending\<close>



























end
